theory Spec2Isabelle
  imports Main "HOL-Library.Sublist"
begin

section \<open>The policy input document\<close>

text \<open>
  The Rego policies of \<^verbatim>\<open>src/policy/authz.rego\<close> read one JSON document, \<^verbatim>\<open>input\<close>.
  The model fixes the shape the policies expect: capability names and tenant ids are
  strings, a capability collection is a list of strings, \<^verbatim>\<open>tenant_memberships\<close> is an
  object from tenant id to a membership object, and \<^verbatim>\<open>is_active\<close> is a boolean.
  A key that may be missing from the document (\<^verbatim>\<open>required_capability\<close>, \<^verbatim>\<open>tenant_id\<close>,
  \<^verbatim>\<open>requested_tenant_id\<close>, an entry of \<^verbatim>\<open>tenant_memberships\<close>) is an \<open>option\<close>:
  Rego's \<^emph>\<open>undefined\<close> is \<open>None\<close>, and an expression over an undefined reference
  makes the rule body fail. A membership without a capability list is one with the empty
  list, and a membership without \<^verbatim>\<open>is_active\<close> is one where it is false: both make the
  same rule bodies fail.
\<close>

record membership =
  is_active :: bool
  mem_capabilities :: "string list"
  role :: string

record user =
  capabilities :: "string list"
  tenant_memberships :: "string \<rightharpoonup> membership"

record rego_input =
  user :: user
  required_capability :: "string option"
  tenant_id :: "string option"
  requested_tenant_id :: "string option"

section \<open>The Rego built-ins the policy calls\<close>

text \<open>
  A string is the list of its characters, and both the pattern rule's counting and its
  comparisons go character by character.
  \<^verbatim>\<open>count\<close> of a string is its number of characters; \<^verbatim>\<open>endswith(s, x)\<close> and
  \<^verbatim>\<open>startswith(s, x)\<close> test a suffix and a prefix; \<^verbatim>\<open>substring(s, offset, length)\<close> fails
  on a negative offset, is empty when the offset is past the end, runs to the end of the
  string when the length is negative, and is cut at the end of the string otherwise.
\<close>

definition count :: "string \<Rightarrow> int" where
  "count s = int (length s)"

definition endswith :: "string \<Rightarrow> string \<Rightarrow> bool" where
  "endswith s x = suffix x s"

definition startswith :: "string \<Rightarrow> string \<Rightarrow> bool" where
  "startswith s x = prefix x s"

definition substring :: "string \<Rightarrow> int \<Rightarrow> int \<Rightarrow> string option" where
  "substring s offset len =
     (if offset < 0 then None
      else if offset \<ge> int (length s) then Some []
      else if len < 0 then Some (drop (nat offset) s)
      else Some (take (nat len) (drop (nat offset) s)))"

section \<open>Package authz: the capability evaluator\<close>

text \<open>
  \<^verbatim>\<open>default allow := false\<close> with five \<^verbatim>\<open>allow if { ... }\<close> rules: \<^verbatim>\<open>allow\<close> is true when
  the body of some rule is satisfied, and false otherwise. Each rule body is one
  predicate, in the order of the source; \<^verbatim>\<open>xs[_] == v\<close> holds when some element of
  \<open>xs\<close> equals \<open>v\<close>.
\<close>

definition allow_admin_wildcard :: "rego_input \<Rightarrow> bool" where
  "allow_admin_wildcard inp =
     (\<exists>c \<in> set (capabilities (user inp)). c = ''*'')"

definition allow_exact :: "rego_input \<Rightarrow> bool" where
  "allow_exact inp =
     (\<exists>c \<in> set (capabilities (user inp)). Some c = required_capability inp)"

definition allow_pattern :: "rego_input \<Rightarrow> bool" where
  "allow_pattern inp =
     (\<exists>capability \<in> set (capabilities (user inp)).
        endswith capability ''*'' \<and>
        (case substring capability 0 (count capability - 1) of
           None \<Rightarrow> False
         | Some pfx \<Rightarrow>
             (case required_capability inp of
                None \<Rightarrow> False
              | Some r \<Rightarrow> startswith r pfx)))"

definition allow_tenant_exact :: "rego_input \<Rightarrow> bool" where
  "allow_tenant_exact inp =
     (case tenant_id inp of
        None \<Rightarrow> False
      | Some t \<Rightarrow>
          (case tenant_memberships (user inp) t of
             None \<Rightarrow> False
           | Some m \<Rightarrow>
               is_active m = True \<and>
               (\<exists>c \<in> set (mem_capabilities m). Some c = required_capability inp)))"

definition allow_tenant_wildcard :: "rego_input \<Rightarrow> bool" where
  "allow_tenant_wildcard inp =
     (case tenant_id inp of
        None \<Rightarrow> False
      | Some t \<Rightarrow>
          (case tenant_memberships (user inp) t of
             None \<Rightarrow> False
           | Some m \<Rightarrow>
               is_active m = True \<and>
               (\<exists>c \<in> set (mem_capabilities m). c = ''*'')))"

definition allow :: "rego_input \<Rightarrow> bool" where
  "allow inp =
     (allow_admin_wildcard inp \<or> allow_exact inp \<or> allow_pattern inp \<or>
      allow_tenant_exact inp \<or> allow_tenant_wildcard inp)"

section \<open>Package tenant: the data isolation check\<close>

text \<open>
  The second policy of \<^verbatim>\<open>src/policy/authz.rego\<close>, \<^verbatim>\<open>package tenant\<close>, reads the same
  input document. \<^verbatim>\<open>data_access\<close> has no default: it is true when one of its two rule bodies is
  satisfied and undefined otherwise, which a caller reads as "not granted".
\<close>

definition data_access_same_tenant :: "rego_input \<Rightarrow> bool" where
  "data_access_same_tenant inp =
     (case tenant_id inp of
        None \<Rightarrow> False
      | Some t \<Rightarrow>
          (case requested_tenant_id inp of
             None \<Rightarrow> False
           | Some rt \<Rightarrow>
               t = rt \<and>
               (case tenant_memberships (user inp) t of
                  None \<Rightarrow> False
                | Some m \<Rightarrow> is_active m = True)))"

definition data_access_admin :: "rego_input \<Rightarrow> bool" where
  "data_access_admin inp =
     (\<exists>c \<in> set (capabilities (user inp)). c = ''*'')"

definition data_access :: "rego_input \<Rightarrow> bool" where
  "data_access inp = (data_access_same_tenant inp \<or> data_access_admin inp)"

section \<open>The grant forms of the specification\<close>

text \<open>
  The grant forms the specification names, as predicates on one granted capability and
  the requested capability. These follow the specification's words, not the policy
  source, and are what the evaluator is compared with: an exact grant, the bare wildcard,
  and a grant ending in the wildcard marker whose literal prefix (the grant without its
  last character) is a prefix of the request.
\<close>

definition prefix_grant :: "string \<Rightarrow> string \<Rightarrow> bool" where
  "prefix_grant g r = (g \<noteq> [] \<and> last g = CHR ''*'' \<and> prefix (butlast g) r)"

definition grant_matches :: "string \<Rightarrow> string option \<Rightarrow> bool" where
  "grant_matches g req =
     (Some g = req \<or> g = ''*'' \<or>
      (case req of None \<Rightarrow> False | Some r \<Rightarrow> prefix_grant g r))"

definition global_match :: "rego_input \<Rightarrow> bool" where
  "global_match inp =
     (\<exists>g \<in> set (capabilities (user inp)). grant_matches g (required_capability inp))"

text \<open>
  The membership that tenant-scoped evaluation may use: present only when a tenant id
  is supplied, the user has a membership in that tenant, and the membership is active.
\<close>

definition active_membership :: "rego_input \<Rightarrow> membership option" where
  "active_membership inp =
     (case tenant_id inp of
        None \<Rightarrow> None
      | Some t \<Rightarrow>
          (case tenant_memberships (user inp) t of
             None \<Rightarrow> None
           | Some m \<Rightarrow> if is_active m then Some m else None))"

text \<open>
  The specification's reading of a tenant-scoped match: any grant form, exact or
  wildcard, in the capability list of the active membership.
\<close>

definition tenant_match_any_wildcard :: "rego_input \<Rightarrow> bool" where
  "tenant_match_any_wildcard inp =
     (case active_membership inp of
        None \<Rightarrow> False
      | Some m \<Rightarrow>
          (\<exists>g \<in> set (mem_capabilities m). grant_matches g (required_capability inp)))"

definition spec_allow :: "rego_input \<Rightarrow> bool" where
  "spec_allow inp = (global_match inp \<or> tenant_match_any_wildcard inp)"

text \<open>
  The narrower tenant-scoped match: an exact grant or the bare wildcard in the capability
  list of the active membership.
\<close>

definition tenant_match_exact_or_bare :: "rego_input \<Rightarrow> bool" where
  "tenant_match_exact_or_bare inp =
     (case active_membership inp of
        None \<Rightarrow> False
      | Some m \<Rightarrow>
          (\<exists>g \<in> set (mem_capabilities m).
             Some g = required_capability inp \<or> g = ''*''))"

text \<open>
  Inputs for the examples of the specification. \<open>single_grant_input g r\<close> is a user
  whose only grant anywhere is the global capability \<open>g\<close>, asking for \<open>r\<close> with no
  tenant context.
\<close>

definition single_grant_input :: "string \<Rightarrow> string \<Rightarrow> rego_input" where
  "single_grant_input g r =
     \<lparr>user = \<lparr>capabilities = [g], tenant_memberships = Map.empty\<rparr>,
      required_capability = Some r,
      tenant_id = None,
      requested_tenant_id = None\<rparr>"

text \<open>
  \<open>tenant_grant_input active g r\<close> is a user with no global capability and one
  membership, in tenant \<open>t1\<close>, whose capability list is \<open>[g]\<close>, asking for \<open>r\<close> in
  tenant \<open>t1\<close>.
\<close>

definition tenant_grant_input :: "bool \<Rightarrow> string \<Rightarrow> string \<Rightarrow> rego_input" where
  "tenant_grant_input active g r =
     \<lparr>user = \<lparr>capabilities = [],
              tenant_memberships =
                [''t1'' \<mapsto> \<lparr>is_active = active, mem_capabilities = [g],
                             role = ''member''\<rparr>]\<rparr>,
      required_capability = Some r,
      tenant_id = Some ''t1'',
      requested_tenant_id = Some ''t1''\<rparr>"

text \<open>
  \<open>suspended_member_input gs r\<close> is a user with the global capabilities \<open>gs\<close> whose
  membership in tenant \<open>t1\<close> is suspended and carries no capability, asking for \<open>r\<close>
  in tenant \<open>t1\<close>.
\<close>

definition suspended_member_input :: "string list \<Rightarrow> string \<Rightarrow> rego_input" where
  "suspended_member_input gs r =
     \<lparr>user = \<lparr>capabilities = gs,
              tenant_memberships =
                [''t1'' \<mapsto> \<lparr>is_active = False, mem_capabilities = [],
                             role = ''member''\<rparr>]\<rparr>,
      required_capability = Some r,
      tenant_id = Some ''t1'',
      requested_tenant_id = Some ''t1''\<rparr>"

section \<open>The scope-version subsystem\<close>

text \<open>
  \<^verbatim>\<open>src/docs/SCOPE_MANAGEMENT_IMPLEMENTATION.md\<close> describes the scope manager
  (\<^verbatim>\<open>services/scope_manager.py\<close>), the session service and the scope middleware, and
  gives the tables \<^verbatim>\<open>scope_versions\<close> and \<^verbatim>\<open>scope_change_events\<close>; the Python
  modules themselves are not among the sources. The records below follow the tables and
  the data model of the specification; the operations are modelled from the
  specification, sections 4.1 and 4.2, as sequential functions on one explicit store.
  Time is a natural number supplied by the caller.
\<close>

type_synonym user_id = string
type_synonym principal = "user_id \<times> string option"

text \<open>The effective scope the CapabilitySnapshotStore resolves for a principal.\<close>

record scope =
  scope_capabilities :: "string set"
  scope_roles :: "string set"

text \<open>
  A row of \<^verbatim>\<open>scope_versions\<close>, keyed by (user_id, tenant_id) in the store. The
  checksum type is a parameter: the digest is not given.
\<close>

record 'd ScopeVersion =
  version :: nat
  sv_capabilities :: "string set"
  sv_roles :: "string set"
  last_updated :: nat
  checksum :: 'd

datatype change_type =
  role_added | role_removed | capability_added | capability_removed | mixed

text \<open>A row of \<^verbatim>\<open>scope_change_events\<close>; the changed sets are split in added and removed.\<close>

record ScopeChangeEvent =
  event_id :: nat
  ev_user_id :: user_id
  ev_tenant_id :: "string option"
  old_version :: nat
  new_version :: nat
  added_capabilities :: "string set"
  removed_capabilities :: "string set"
  added_roles :: "string set"
  removed_roles :: "string set"
  ev_change_type :: change_type
  timestamp :: nat
  processed :: bool

record SessionScopeRecord =
  sess_user_id :: user_id
  sess_tenant_id :: "string option"
  scope_version_at_issue :: nat
  issued_at :: nat
  last_validated_at :: nat

record 'd store =
  scope_versions :: "principal \<rightharpoonup> 'd ScopeVersion"
  scope_change_events :: "ScopeChangeEvent list"
  session_scope_records :: "string \<rightharpoonup> SessionScopeRecord"

definition initial_store :: "'d store" where
  "initial_store =
     \<lparr>scope_versions = Map.empty, scope_change_events = [],
      session_scope_records = Map.empty\<rparr>"

record config =
  grace_period :: nat
  fail_open_on_lookup_error :: bool

datatype scope_error = NotInitialized

datatype validation = OK | STALE nat | INVALID

text \<open>
  Modelled from the spec: the classification of a scope change event, missing with
  \<^verbatim>\<open>services/scope_manager.py\<close>. The specification names the classes
  (role_added/removed, capability_added/removed, or mixed); a change of one kind only
  gets that kind's class, every other change is mixed.
\<close>

definition classify ::
  "string set \<Rightarrow> string set \<Rightarrow> string set \<Rightarrow> string set \<Rightarrow> change_type" where
  "classify cap_add cap_rem role_add role_rem =
     (if cap_add \<noteq> {} \<and> cap_rem = {} \<and> role_add = {} \<and> role_rem = {}
        then capability_added
      else if cap_add = {} \<and> cap_rem \<noteq> {} \<and> role_add = {} \<and> role_rem = {}
        then capability_removed
      else if cap_add = {} \<and> cap_rem = {} \<and> role_add \<noteq> {} \<and> role_rem = {}
        then role_added
      else if cap_add = {} \<and> cap_rem = {} \<and> role_add = {} \<and> role_rem \<noteq> {}
        then role_removed
      else mixed)"

text \<open>
  Modelled from the spec: the ScopeChangeEvent that \<^verbatim>\<open>recompute\<close> appends when the
  checksum changed, missing with \<^verbatim>\<open>services/scope_manager.py\<close>. It describes the diff
  between the stored row and the newly resolved scope, from the row's version to the next
  one. Event ids count the events of the log.
\<close>

definition change_event ::
  "nat \<Rightarrow> nat \<Rightarrow> user_id \<Rightarrow> string option \<Rightarrow> 'd ScopeVersion \<Rightarrow> scope \<Rightarrow> ScopeChangeEvent"
  where
  "change_event n now u t row sc =
     \<lparr>event_id = n,
      ev_user_id = u,
      ev_tenant_id = t,
      old_version = version row,
      new_version = version row + 1,
      added_capabilities = scope_capabilities sc - sv_capabilities row,
      removed_capabilities = sv_capabilities row - scope_capabilities sc,
      added_roles = scope_roles sc - sv_roles row,
      removed_roles = sv_roles row - scope_roles sc,
      ev_change_type =
        classify (scope_capabilities sc - sv_capabilities row)
          (sv_capabilities row - scope_capabilities sc)
          (scope_roles sc - sv_roles row) (sv_roles row - scope_roles sc),
      timestamp = now,
      processed = False\<rparr>"

text \<open>
  Modelled from the spec: \<^verbatim>\<open>ScopeVersionManager.recompute(user_id, tenant_id)\<close>, missing
  with \<^verbatim>\<open>services/scope_manager.py\<close>. \<open>digest\<close> is the checksum of a canonicalised
  scope and \<open>snapshot\<close> the CapabilitySnapshotStore at the time of the call. With no
  row, a row at version 1 is created and no event is emitted. With a row of the same
  checksum, nothing changes. With a row of another checksum, the version is incremented,
  the new capabilities, roles and checksum are stored and one event is appended.
\<close>

definition recompute ::
  "(scope \<Rightarrow> 'd) \<Rightarrow> (principal \<Rightarrow> scope) \<Rightarrow> nat \<Rightarrow> user_id \<Rightarrow> string option \<Rightarrow>
   'd store \<Rightarrow> 'd store" where
  "recompute digest snapshot now u t st =
     (let sc = snapshot (u, t); c = digest sc in
      case scope_versions st (u, t) of
        None \<Rightarrow>
          st\<lparr>scope_versions := (scope_versions st)((u, t) \<mapsto>
               \<lparr>version = 1, sv_capabilities = scope_capabilities sc,
                sv_roles = scope_roles sc, last_updated = now, checksum = c\<rparr>)\<rparr>
      | Some row \<Rightarrow>
          if checksum row = c then st
          else
            st\<lparr>scope_versions := (scope_versions st)((u, t) \<mapsto>
                 \<lparr>version = version row + 1, sv_capabilities = scope_capabilities sc,
                  sv_roles = scope_roles sc, last_updated = now, checksum = c\<rparr>),
               scope_change_events := scope_change_events st @
                 [change_event (Suc (length (scope_change_events st))) now u t row sc]\<rparr>)"

text \<open>
  Modelled from the spec: \<^verbatim>\<open>get_version(user_id, tenant_id)\<close>, missing with
  \<^verbatim>\<open>services/scope_manager.py\<close>: the current version, or NotInitialized when the
  scope was never computed.
\<close>

definition get_version :: "'d store \<Rightarrow> user_id \<Rightarrow> string option \<Rightarrow> scope_error + nat" where
  "get_version st u t =
     (case scope_versions st (u, t) of
        None \<Rightarrow> Inl NotInitialized
      | Some row \<Rightarrow> Inr (version row))"

text \<open>
  Modelled from the spec: \<^verbatim>\<open>SessionIssued(session_id, user_id, tenant_id)\<close>, missing
  with \<^verbatim>\<open>services/session_service.py\<close>. The scope version is captured with
  \<^verbatim>\<open>get_version\<close>, after a \<^verbatim>\<open>recompute\<close> when the scope was never computed, and a
  SessionScopeRecord is stored.
\<close>

definition session_issued ::
  "(scope \<Rightarrow> 'd) \<Rightarrow> (principal \<Rightarrow> scope) \<Rightarrow> nat \<Rightarrow> string \<Rightarrow> user_id \<Rightarrow> string option \<Rightarrow>
   'd store \<Rightarrow> 'd store" where
  "session_issued digest snapshot now sid u t st =
     (let st' = (case get_version st u t of
                   Inl NotInitialized \<Rightarrow> recompute digest snapshot now u t st
                 | Inr v \<Rightarrow> st)
      in case get_version st' u t of
           Inl NotInitialized \<Rightarrow> st'
         | Inr v \<Rightarrow>
             st'\<lparr>session_scope_records := (session_scope_records st')(sid \<mapsto>
                  \<lparr>sess_user_id = u, sess_tenant_id = t, scope_version_at_issue = v,
                   issued_at = now, last_validated_at = now\<rparr>)\<rparr>)"

text \<open>
  Modelled from the spec: \<^verbatim>\<open>invalidate(session_id, reason)\<close>, missing with
  \<^verbatim>\<open>services/session_service.py\<close>: the record leaves the active set. The push of the
  \<^verbatim>\<open>session_invalidated\<close> message is outside this model.
\<close>

definition invalidate :: "string \<Rightarrow> 'd store \<Rightarrow> 'd store" where
  "invalidate sid st =
     st\<lparr>session_scope_records := (session_scope_records st)(sid := None)\<rparr>"

text \<open>
  Modelled from the spec: \<^verbatim>\<open>validate(session_id)\<close>, missing with
  \<^verbatim>\<open>auth/scope_middleware.py\<close>. The record and the current version are fetched; the
  session is STALE when its captured version is below the current one, with the grace
  that remains, and OK otherwise. A session without a record is INVALID. When the
  version lookup fails, \<^verbatim>\<open>fail_open_on_lookup_error\<close> decides between OK and STALE without
  grace. The specification does not say from when the grace period runs; here it runs
  from the row's \<^verbatim>\<open>last_updated\<close>.
\<close>

definition validate :: "config \<Rightarrow> nat \<Rightarrow> 'd store \<Rightarrow> string \<Rightarrow> validation" where
  "validate cfg now st sid =
     (case session_scope_records st sid of
        None \<Rightarrow> INVALID
      | Some r \<Rightarrow>
          (case scope_versions st (sess_user_id r, sess_tenant_id r) of
             None \<Rightarrow> if fail_open_on_lookup_error cfg then OK else STALE 0
           | Some row \<Rightarrow>
               if scope_version_at_issue r < version row
               then STALE (last_updated row + grace_period cfg - now)
               else OK))"

text \<open>
  The calls that reach the store, and a run of a sequence of calls. Each
  \<^verbatim>\<open>recompute\<close> carries the snapshot of the CapabilitySnapshotStore it sees.
\<close>

datatype call =
  Recompute "principal \<Rightarrow> scope" nat user_id "string option"
| SessionIssued "principal \<Rightarrow> scope" nat string user_id "string option"
| Invalidate string

fun apply_call :: "(scope \<Rightarrow> 'd) \<Rightarrow> call \<Rightarrow> 'd store \<Rightarrow> 'd store" where
  "apply_call digest (Recompute snapshot now u t) st = recompute digest snapshot now u t st"
| "apply_call digest (SessionIssued snapshot now sid u t) st =
     session_issued digest snapshot now sid u t st"
| "apply_call digest (Invalidate sid) st = invalidate sid st"

fun run :: "(scope \<Rightarrow> 'd) \<Rightarrow> call list \<Rightarrow> 'd store \<Rightarrow> 'd store" where
  "run digest [] st = st"
| "run digest (c # cs) st = run digest cs (apply_call digest c st)"

text \<open>The events of one principal, in the order of the log.\<close>

definition events_for :: "principal \<Rightarrow> 'd store \<Rightarrow> ScopeChangeEvent list" where
  "events_for k st =
     filter (\<lambda>e. (ev_user_id e, ev_tenant_id e) = k) (scope_change_events st)"

text \<open>
  A gapless stream: each event goes from a version to the next one, and each event
  starts at the version the event before it reached.
\<close>

fun gapless :: "ScopeChangeEvent list \<Rightarrow> bool" where
  "gapless [] = True"
| "gapless [e] = (new_version e = old_version e + 1)"
| "gapless (e # e' # es) =
     (new_version e = old_version e + 1 \<and> new_version e = old_version e' \<and>
      gapless (e' # es))"

text \<open>
  The stored version of a principal does not go down from \<open>st\<close> to \<open>st'\<close>: a row of
  \<open>st\<close> is still there in \<open>st'\<close>, at a version that is not smaller.
\<close>

definition version_le :: "'d store \<Rightarrow> 'd store \<Rightarrow> principal \<Rightarrow> bool" where
  "version_le st st' k =
     (case scope_versions st k of
        None \<Rightarrow> True
      | Some row \<Rightarrow>
          (case scope_versions st' k of
             None \<Rightarrow> False
           | Some row' \<Rightarrow> version row \<le> version row'))"

text \<open>
  The invariant that links the log to the table: the events of a principal are gapless,
  and the last of them, when there is one, reached the version now stored.
\<close>

definition log_inv :: "'d store \<Rightarrow> principal \<Rightarrow> bool" where
  "log_inv st k =
     (gapless (events_for k st) \<and>
      (events_for k st = [] \<or>
       (case scope_versions st k of
          None \<Rightarrow> False
        | Some row \<Rightarrow> new_version (last (events_for k st)) = version row)))"

text \<open>
  The first scenarios of the specification, as snapshots and calls: user \<open>u\<close> holds
  \<open>chat.completions\<close> in tenant \<open>t\<close>, is granted \<open>embeddings\<close>, and later loses
  everything; another principal changes in between.
\<close>

definition chat_only :: "principal \<Rightarrow> scope" where
  "chat_only k = \<lparr>scope_capabilities = {''chat.completions''}, scope_roles = {}\<rparr>"

definition chat_and_embeddings :: "principal \<Rightarrow> scope" where
  "chat_and_embeddings k =
     \<lparr>scope_capabilities = {''chat.completions'', ''embeddings''}, scope_roles = {}\<rparr>"

definition nothing_granted :: "principal \<Rightarrow> scope" where
  "nothing_granted k = \<lparr>scope_capabilities = {}, scope_roles = {}\<rparr>"

definition scenario_calls :: "call list" where
  "scenario_calls =
     [SessionIssued chat_only 10 ''s1'' ''u'' (Some ''t''),
      Recompute chat_only 11 ''v'' None,
      Recompute chat_and_embeddings 20 ''u'' (Some ''t''),
      Recompute chat_and_embeddings 21 ''u'' (Some ''t''),
      Recompute nothing_granted 22 ''v'' None,
      Recompute nothing_granted 30 ''u'' (Some ''t'')]"

section \<open>Properties of the capability evaluator\<close>

lemma endswith_star: "endswith c ''*'' \<longleftrightarrow> c \<noteq> [] \<and> last c = CHR ''*''"
  unfolding endswith_def by (cases c rule: rev_cases) auto

lemma substring_butlast:
  "c \<noteq> [] \<Longrightarrow> substring c 0 (count c - 1) = Some (butlast c)"
  unfolding substring_def count_def
  by (simp add: butlast_conv_take nat_diff_distrib')

lemma pattern_body:
  "(endswith c ''*'' \<and>
     (case substring c 0 (count c - 1) of
        None \<Rightarrow> False
      | Some pfx \<Rightarrow> (case req of None \<Rightarrow> False | Some r \<Rightarrow> startswith r pfx))) \<longleftrightarrow>
   (case req of None \<Rightarrow> False | Some r \<Rightarrow> prefix_grant c r)"
proof (cases "c = []")
  case True
  then show ?thesis
    by (simp add: endswith_star prefix_grant_def split: option.splits)
next
  case False
  then show ?thesis
    by (simp add: endswith_star substring_butlast prefix_grant_def startswith_def
        split: option.splits)
qed

lemma allow_pattern_iff:
  "allow_pattern inp \<longleftrightarrow>
     (\<exists>g \<in> set (capabilities (user inp)).
        case required_capability inp of None \<Rightarrow> False | Some r \<Rightarrow> prefix_grant g r)"
  unfolding allow_pattern_def by (simp only: pattern_body)

lemma global_rules_iff:
  "allow_admin_wildcard inp \<or> allow_exact inp \<or> allow_pattern inp \<longleftrightarrow> global_match inp"
  unfolding allow_pattern_iff allow_admin_wildcard_def allow_exact_def global_match_def
    grant_matches_def
  by blast

lemma tenant_rules_iff:
  "allow_tenant_exact inp \<or> allow_tenant_wildcard inp \<longleftrightarrow> tenant_match_exact_or_bare inp"
  unfolding allow_tenant_exact_def allow_tenant_wildcard_def tenant_match_exact_or_bare_def
    active_membership_def
  by (auto split: option.splits)

lemma allow_characterised:
  "allow inp \<longleftrightarrow> global_match inp \<or> tenant_match_exact_or_bare inp"
  using global_rules_iff [of inp] tenant_rules_iff [of inp]
  unfolding allow_def by blast

lemma prefix_grant_star: "prefix_grant (w @ ''*'') r \<longleftrightarrow> prefix w r"
  by (simp add: prefix_grant_def)

lemmas example_defs =
  single_grant_input_def tenant_grant_input_def suspended_member_input_def
  global_match_def grant_matches_def prefix_grant_def active_membership_def
  tenant_match_exact_or_bare_def tenant_match_any_wildcard_def spec_allow_def

lemma tenant_match_widened:
  "tenant_match_exact_or_bare inp \<Longrightarrow> tenant_match_any_wildcard inp"
  unfolding tenant_match_exact_or_bare_def tenant_match_any_wildcard_def
  by (cases "active_membership inp") (auto simp: grant_matches_def)

lemma allow_implies_spec_allow: "allow inp \<Longrightarrow> spec_allow inp"
  unfolding allow_characterised spec_allow_def
  using tenant_match_widened [of inp] by blast

text \<open>
  C1: the allow decision should be true exactly when some grant matches, where a
  grant of the active tenant membership may match exactly or by wildcard, as a global
  grant does. The evaluator misses one case. For a user with no global capability whose
  active membership in tenant \<open>t1\<close> grants \<open>chat.*\<close>, the request \<open>chat.completions\<close>
  in \<open>t1\<close> is matched by that grant's literal prefix, and the evaluator denies: the two
  tenant rules compare a membership capability with the request and with the bare
  wildcard only. The same grant held globally is allowed by the pattern rule.
\<close>

theorem allow_tenant_prefix_wildcard_denied:
  "spec_allow (tenant_grant_input True ''chat.*'' ''chat.completions'') \<and>
   \<not> allow (tenant_grant_input True ''chat.*'' ''chat.completions'') \<and>
   allow (single_grant_input ''chat.*'' ''chat.completions'')"
  by (simp add: example_defs allow_def allow_admin_wildcard_def allow_exact_def
      allow_pattern_def allow_tenant_exact_def allow_tenant_wildcard_def
      endswith_star substring_butlast startswith_def)

text \<open>
  C2: when the global capability set contains a grant ending in the wildcard marker, the
  evaluator allows every request that has the grant's literal prefix as a prefix, and a
  bare wildcard grant allows every request, also one without a requested capability. A
  grant of \<open>chat.*\<close> allows \<open>chat.completions.stream\<close>; with only that grant,
  \<open>embeddings.create\<close> is denied.
\<close>

theorem wildcard_grant_allows:
  "(w @ ''*'' \<in> set (capabilities (user inp)) \<and> required_capability inp = Some r \<and>
      prefix w r \<longrightarrow> allow inp) \<and>
   (''*'' \<in> set (capabilities (user inp)) \<longrightarrow> allow inp) \<and>
   allow (single_grant_input ''chat.*'' ''chat.completions.stream'') \<and>
   \<not> allow (single_grant_input ''chat.*'' ''embeddings.create'')"
proof (intro conjI impI)
  assume "w @ ''*'' \<in> set (capabilities (user inp)) \<and> required_capability inp = Some r \<and>
    prefix w r"
  then have "allow_pattern inp"
    unfolding allow_pattern_iff using prefix_grant_star [of w r] by force
  then show "allow inp" by (simp add: allow_def)
next
  assume "''*'' \<in> set (capabilities (user inp))"
  then have "allow_admin_wildcard inp" by (simp add: allow_admin_wildcard_def)
  then show "allow inp" by (simp add: allow_def)
next
  show "allow (single_grant_input ''chat.*'' ''chat.completions.stream'')"
    by (simp add: allow_characterised example_defs)
next
  show "\<not> allow (single_grant_input ''chat.*'' ''embeddings.create'')"
    by (simp add: allow_characterised example_defs)
qed

theorem wildcard_grant_allows_witness:
  "allow (suspended_member_input [''billing.read'', ''chat.*''] ''chat.completions'') \<and>
   allow (suspended_member_input [''*''] ''embeddings.create'')"
proof -
  have a: "''chat.'' @ ''*'' \<in>
      set (capabilities (user (suspended_member_input [''billing.read'', ''chat.*'']
        ''chat.completions''))) \<and>
    required_capability (suspended_member_input [''billing.read'', ''chat.*'']
        ''chat.completions'') = Some ''chat.completions'' \<and>
    prefix ''chat.'' ''chat.completions''"
    by (simp add: suspended_member_input_def)
  have b: "''*'' \<in> set (capabilities (user (suspended_member_input [''*'']
      ''embeddings.create'')))"
    by (simp add: suspended_member_input_def)
  from a b show ?thesis
    using wildcard_grant_allows [of "''chat.''"
        "suspended_member_input [''billing.read'', ''chat.*''] ''chat.completions''"
        "''chat.completions''"]
      wildcard_grant_allows [of "[]" "suspended_member_input [''*''] ''embeddings.create''"]
    by blast
qed

text \<open>
  C3: when the request carries a tenant id whose membership record is not active, the
  capability list of that membership confers nothing: if no global grant matches the
  request, the evaluator denies, whatever the membership's capability list contains.
\<close>

theorem inactive_membership_denied:
  "tenant_id inp = Some t \<Longrightarrow> tenant_memberships (user inp) t = Some m \<Longrightarrow>
   is_active m = False \<Longrightarrow> \<not> global_match inp \<Longrightarrow> \<not> allow inp"
  by (simp add: allow_characterised tenant_match_exact_or_bare_def active_membership_def)

theorem inactive_membership_denied_witness:
  "\<not> allow (tenant_grant_input False ''chat.completions'' ''chat.completions'') \<and>
   ''chat.completions'' \<in> set (mem_capabilities
      \<lparr>is_active = False, mem_capabilities = [''chat.completions''], role = ''member''\<rparr>) \<and>
   allow (tenant_grant_input True ''chat.completions'' ''chat.completions'')"
proof -
  let ?inp = "tenant_grant_input False ''chat.completions'' ''chat.completions''"
  let ?m = "\<lparr>is_active = False, mem_capabilities = [''chat.completions''],
    role = ''member''\<rparr>"
  have "tenant_id ?inp = Some ''t1''"
    and "tenant_memberships (user ?inp) ''t1'' = Some ?m"
    and "is_active ?m = False"
    and "\<not> global_match ?inp"
    by (simp_all add: tenant_grant_input_def global_match_def)
  then have "\<not> allow ?inp"
    by (rule inactive_membership_denied)
  moreover have "allow (tenant_grant_input True ''chat.completions'' ''chat.completions'')"
    by (simp add: tenant_grant_input_def allow_def allow_tenant_exact_def)
  ultimately show ?thesis by simp
qed

text \<open>
  C8: a matching global grant (exact, by literal prefix, or the bare wildcard) makes the
  evaluator allow whatever tenant id the request carries and whatever the memberships
  are, active or not. A user whose membership in the requested tenant is suspended is
  allowed when a global grant matches.
\<close>

theorem global_grant_ignores_tenant:
  "global_match inp \<Longrightarrow>
   allow (inp\<lparr>user := (user inp)\<lparr>tenant_memberships := ms\<rparr>, tenant_id := t\<rparr>)"
  by (simp add: allow_characterised global_match_def)

theorem global_grant_ignores_tenant_witness:
  "global_match (single_grant_input ''chat.*'' ''chat.completions'') \<and>
   allow ((single_grant_input ''chat.*'' ''chat.completions'')
     \<lparr>user := (user (single_grant_input ''chat.*'' ''chat.completions''))
        \<lparr>tenant_memberships :=
           [''t1'' \<mapsto> \<lparr>is_active = False, mem_capabilities = [], role = ''member''\<rparr>]\<rparr>,
      tenant_id := Some ''t1''\<rparr>)"
proof -
  have g: "global_match (single_grant_input ''chat.*'' ''chat.completions'')"
    by (simp add: example_defs)
  from g global_grant_ignores_tenant [OF g] show ?thesis
    by (rule conjI)
qed

text \<open>
  C9: wildcard matching compares characters, not segments. The pattern rule with the
  grant \<open>w*\<close> holds exactly for the requests that have \<open>w\<close> as a prefix, and a user
  whose only grant is \<open>w*\<close> is allowed exactly those requests. So the grant \<open>chat.c*\<close>
  allows \<open>chat.completions\<close>, and \<open>chat.*\<close> does not allow the bare \<open>chat\<close>.
\<close>

theorem wildcard_is_raw_prefix:
  "(allow_pattern (single_grant_input (w @ ''*'') r) \<longleftrightarrow> prefix w r) \<and>
   (allow (single_grant_input (w @ ''*'') r) \<longleftrightarrow> prefix w r) \<and>
   allow (single_grant_input ''chat.c*'' ''chat.completions'') \<and>
   \<not> allow (single_grant_input ''chat.*'' ''chat'')"
proof (intro conjI)
  show p: "allow_pattern (single_grant_input (w @ ''*'') r) \<longleftrightarrow> prefix w r"
    by (simp add: allow_pattern_iff single_grant_input_def prefix_grant_star)
  have "allow_exact (single_grant_input (w @ ''*'') r) \<Longrightarrow> prefix w r"
    by (auto simp: allow_exact_def single_grant_input_def)
  moreover have "allow_admin_wildcard (single_grant_input (w @ ''*'') r) \<Longrightarrow> prefix w r"
    by (auto simp: allow_admin_wildcard_def single_grant_input_def)
  moreover have "\<not> allow_tenant_exact (single_grant_input (w @ ''*'') r)"
    and "\<not> allow_tenant_wildcard (single_grant_input (w @ ''*'') r)"
    by (simp_all add: allow_tenant_exact_def allow_tenant_wildcard_def single_grant_input_def)
  ultimately show "allow (single_grant_input (w @ ''*'') r) \<longleftrightarrow> prefix w r"
    using p unfolding allow_def by blast
  show "allow (single_grant_input ''chat.c*'' ''chat.completions'')"
    by (simp add: allow_characterised example_defs)
  show "\<not> allow (single_grant_input ''chat.*'' ''chat'')"
    by (simp add: allow_characterised example_defs)
qed

theorem wildcard_is_raw_prefix_witness:
  "allow (single_grant_input ''chat.comp*'' ''chat.completions'') \<and>
   \<not> allow (single_grant_input ''chat.comp*'' ''chat.create'')"
  using wildcard_is_raw_prefix [of "''chat.comp''" "''chat.completions''"]
    wildcard_is_raw_prefix [of "''chat.comp''" "''chat.create''"]
  by simp

text \<open>
  C10: in the tenant policy, for an input whose user capabilities do not contain the
  bare wildcard, \<open>data_access\<close> holds exactly when a tenant id and a requested tenant id
  are both supplied and equal and the membership in that tenant is active. Access to a
  requested tenant other than the tenant context is denied for every such input.
\<close>

theorem data_access_same_tenant_only:
  "''*'' \<notin> set (capabilities (user inp)) \<Longrightarrow>
   (data_access inp \<longleftrightarrow>
      (\<exists>t m. tenant_id inp = Some t \<and> requested_tenant_id inp = Some t \<and>
         tenant_memberships (user inp) t = Some m \<and> is_active m)) \<and>
   (tenant_id inp \<noteq> requested_tenant_id inp \<longrightarrow> \<not> data_access inp)"
  unfolding data_access_def data_access_same_tenant_def data_access_admin_def
  by (auto split: option.splits)

theorem data_access_same_tenant_only_witness:
  "data_access (tenant_grant_input True ''chat.*'' ''chat'') \<and>
   \<not> data_access ((tenant_grant_input True ''chat.*'' ''chat'')
       \<lparr>requested_tenant_id := Some ''t2''\<rparr>) \<and>
   \<not> data_access (tenant_grant_input False ''chat.*'' ''chat'')"
proof -
  have "''*'' \<notin> set (capabilities (user (tenant_grant_input True ''chat.*'' ''chat'')))"
    and "''*'' \<notin> set (capabilities (user ((tenant_grant_input True ''chat.*'' ''chat'')
       \<lparr>requested_tenant_id := Some ''t2''\<rparr>)))"
    and "''*'' \<notin> set (capabilities (user (tenant_grant_input False ''chat.*'' ''chat'')))"
    by (simp_all add: tenant_grant_input_def)
  from this [THEN data_access_same_tenant_only] show ?thesis
    by (simp add: tenant_grant_input_def)
qed

section \<open>Properties of the scope-version subsystem\<close>

lemma recompute_row:
  "scope_versions (recompute digest snapshot now u t st) (u, t) =
     Some (case scope_versions st (u, t) of
        None \<Rightarrow> \<lparr>version = 1, sv_capabilities = scope_capabilities (snapshot (u, t)),
                sv_roles = scope_roles (snapshot (u, t)), last_updated = now,
                checksum = digest (snapshot (u, t))\<rparr>
      | Some row \<Rightarrow>
          if checksum row = digest (snapshot (u, t)) then row
          else \<lparr>version = version row + 1,
                sv_capabilities = scope_capabilities (snapshot (u, t)),
                sv_roles = scope_roles (snapshot (u, t)), last_updated = now,
                checksum = digest (snapshot (u, t))\<rparr>)"
  by (simp add: recompute_def Let_def split: option.splits)

lemma recompute_other:
  "k \<noteq> (u, t) \<Longrightarrow>
   scope_versions (recompute digest snapshot now u t st) k = scope_versions st k"
  by (simp add: recompute_def Let_def split: option.splits)

lemma recompute_checksum:
  "\<exists>row. scope_versions (recompute digest snapshot now u t st) (u, t) = Some row \<and>
     checksum row = digest (snapshot (u, t))"
  by (simp add: recompute_row split: option.splits)

lemma version_le_refl: "version_le st st k"
  by (simp add: version_le_def split: option.splits)

lemma version_le_trans:
  "version_le st st' k \<Longrightarrow> version_le st' st'' k \<Longrightarrow> version_le st st'' k"
  by (auto simp: version_le_def split: option.splits)

lemma version_le_recompute: "version_le st (recompute digest snapshot now u t st) k"
proof (cases "k = (u, t)")
  case True
  then show ?thesis
    by (simp add: version_le_def recompute_row split: option.splits)
next
  case False
  then show ?thesis
    by (simp add: version_le_def recompute_other split: option.splits)
qed

lemma session_issued_versions:
  "version_le st (session_issued digest snapshot now sid u t st) k"
proof -
  have "scope_versions (session_issued digest snapshot now sid u t st) =
      scope_versions st \<or>
    scope_versions (session_issued digest snapshot now sid u t st) =
      scope_versions (recompute digest snapshot now u t st)"
    by (simp add: session_issued_def Let_def get_version_def
        split: option.splits sum.splits scope_error.splits)
  then show ?thesis
  proof
    assume "scope_versions (session_issued digest snapshot now sid u t st) = scope_versions st"
    then show ?thesis
      using version_le_refl [of st k] by (simp add: version_le_def split: option.splits)
  next
    assume "scope_versions (session_issued digest snapshot now sid u t st) =
      scope_versions (recompute digest snapshot now u t st)"
    then show ?thesis
      using version_le_recompute [of st digest snapshot now u t k]
      by (simp add: version_le_def split: option.splits)
  qed
qed

lemma version_le_apply: "version_le st (apply_call digest c st) k"
  by (cases c)
    (simp_all add: version_le_recompute session_issued_versions,
     simp add: version_le_def invalidate_def split: option.splits)

lemma version_le_run: "version_le st (run digest cs st) k"
proof (induction cs arbitrary: st)
  case Nil
  show ?case by (simp add: version_le_refl)
next
  case (Cons c cs)
  from version_le_apply [of st digest c k] Cons.IH [of "apply_call digest c st"]
  show ?case by (simp add: version_le_trans)
qed

lemma run_append: "run digest (cs @ cs') st = run digest cs' (run digest cs st)"
  by (induction cs arbitrary: st) simp_all

lemma recompute_idem:
  "snapshot' (u, t) = snapshot (u, t) \<Longrightarrow>
   recompute digest snapshot' now' u t (recompute digest snapshot now u t st) =
   recompute digest snapshot now u t st"
proof -
  assume eq: "snapshot' (u, t) = snapshot (u, t)"
  obtain row where r: "scope_versions (recompute digest snapshot now u t st) (u, t) = Some row"
    and c: "checksum row = digest (snapshot (u, t))"
    using recompute_checksum by blast
  show ?thesis
    by (subst (1) recompute_def) (simp add: Let_def r c eq)
qed


lemma gapless_snoc:
  "gapless (es @ [e]) \<longleftrightarrow>
     gapless es \<and> new_version e = old_version e + 1 \<and>
     (es = [] \<or> new_version (last es) = old_version e)"
  by (induction es rule: gapless.induct) auto

lemma gapless_step:
  "gapless es \<Longrightarrow> i < length es \<Longrightarrow> new_version (es ! i) = old_version (es ! i) + 1"
proof (induction es arbitrary: i rule: gapless.induct)
  case 1
  then show ?case by simp
next
  case (2 e)
  then show ?case by simp
next
  case (3 e e' es)
  then show ?case by (cases i) simp_all
qed

lemma gapless_link:
  "gapless es \<Longrightarrow> Suc i < length es \<Longrightarrow> new_version (es ! i) = old_version (es ! Suc i)"
proof (induction es arbitrary: i rule: gapless.induct)
  case 1
  then show ?case by simp
next
  case (2 e)
  then show ?case by simp
next
  case (3 e e' es)
  then show ?case by (cases i) simp_all
qed

lemma events_for_recompute:
  "events_for k (recompute digest snapshot now u t st) =
     (case scope_versions st (u, t) of
        None \<Rightarrow> events_for k st
      | Some row \<Rightarrow>
          if checksum row = digest (snapshot (u, t)) \<or> k \<noteq> (u, t) then events_for k st
          else events_for k st @
            [change_event (Suc (length (scope_change_events st))) now u t row
               (snapshot (u, t))])"
  by (auto simp: events_for_def recompute_def Let_def change_event_def split: option.splits)

lemma log_inv_recompute:
  assumes "log_inv st k"
  shows "log_inv (recompute digest snapshot now u t st) k"
proof (cases "k = (u, t)")
  case False
  with assms show ?thesis
    by (simp add: log_inv_def events_for_recompute recompute_other split: option.splits)
next
  case True
  show ?thesis
  proof (cases "scope_versions st (u, t)")
    case None
    with assms True show ?thesis
      by (simp add: log_inv_def events_for_recompute recompute_row)
  next
    case (Some row)
    with assms True show ?thesis
      by (auto simp: log_inv_def events_for_recompute recompute_row gapless_snoc
          change_event_def)
  qed
qed

lemma log_inv_cong:
  "scope_versions st' = scope_versions st \<Longrightarrow>
   scope_change_events st' = scope_change_events st \<Longrightarrow> log_inv st' k = log_inv st k"
  by (simp add: log_inv_def events_for_def split: option.splits)

lemma log_inv_session_issued:
  assumes "log_inv st k"
  shows "log_inv (session_issued digest snapshot now sid u t st) k"
proof -
  let ?st' = "session_issued digest snapshot now sid u t st"
  have "(scope_versions ?st' = scope_versions st \<and>
         scope_change_events ?st' = scope_change_events st) \<or>
        (scope_versions ?st' = scope_versions (recompute digest snapshot now u t st) \<and>
         scope_change_events ?st' =
           scope_change_events (recompute digest snapshot now u t st))"
    by (simp add: session_issued_def Let_def get_version_def
        split: option.splits sum.splits scope_error.splits)
  with assms log_inv_recompute [OF assms, of digest snapshot now u t]
  show ?thesis
    using log_inv_cong by blast
qed

lemma log_inv_apply: "log_inv st k \<Longrightarrow> log_inv (apply_call digest c st) k"
proof (cases c)
  case (Invalidate sid)
  assume "log_inv st k"
  moreover have "log_inv (invalidate sid st) k = log_inv st k"
    by (rule log_inv_cong) (simp_all add: invalidate_def)
  ultimately show ?thesis using Invalidate by simp
qed (simp_all add: log_inv_recompute log_inv_session_issued)

lemma log_inv_run: "log_inv st k \<Longrightarrow> log_inv (run digest cs st) k"
  by (induction cs arbitrary: st) (simp_all add: log_inv_apply)

lemma log_inv_initial: "log_inv initial_store k"
  by (simp add: log_inv_def events_for_def initial_store_def)

lemma gapless_run: "gapless (events_for k (run digest cs initial_store))"
  using log_inv_run [OF log_inv_initial, where k = k and digest = digest and cs = cs]
  by (simp add: log_inv_def)


lemmas scenario_defs =
  scenario_calls_def chat_only_def chat_and_embeddings_def nothing_granted_def
  initial_store_def recompute_def session_issued_def get_version_def change_event_def
  events_for_def Let_def

text \<open>
  C4: over any sequence of calls the stored version of a principal never goes down:
  from the store after any first part of the sequence to the store after any longer
  part, a row stays, at a version that is not smaller. One \<^verbatim>\<open>recompute\<close> on an existing
  row increments the version by exactly one when the newly computed checksum differs from
  the stored one and leaves it unchanged otherwise. The first \<^verbatim>\<open>recompute\<close> of a principal
  stores version 1.
\<close>

theorem recompute_version_monotonic:
  "version_le (run digest cs st) (run digest (cs @ cs') st) k \<and>
   (scope_versions st (u, t) = Some row \<longrightarrow>
      get_version (recompute digest snapshot now u t st) u t =
        Inr (if digest (snapshot (u, t)) \<noteq> checksum row then version row + 1
             else version row)) \<and>
   (scope_versions st (u, t) = None \<longrightarrow>
      get_version (recompute digest snapshot now u t st) u t = Inr 1)"
  by (simp add: run_append version_le_run get_version_def recompute_row)

theorem recompute_version_monotonic_witness:
  "get_version (recompute (\<lambda>sc. sc) chat_and_embeddings 20 ''u'' (Some ''t'')
      (recompute (\<lambda>sc. sc) chat_only 10 ''u'' (Some ''t'') initial_store))
      ''u'' (Some ''t'') = Inr 2 \<and>
   get_version (recompute (\<lambda>sc. sc) chat_only 20 ''u'' (Some ''t'')
      (recompute (\<lambda>sc. sc) chat_only 10 ''u'' (Some ''t'') initial_store))
      ''u'' (Some ''t'') = Inr 1 \<and>
   get_version (recompute (\<lambda>sc. sc) chat_only 10 ''u'' (Some ''t'') initial_store)
      ''u'' (Some ''t'') = Inr 1 \<and>
   version_le (run (\<lambda>sc. sc) (take 3 scenario_calls) initial_store)
     (run (\<lambda>sc. sc) scenario_calls initial_store) (''u'', Some ''t'')"
proof -
  let ?base = "recompute (\<lambda>sc. sc) chat_only 10 ''u'' (Some ''t'') initial_store"
  let ?row = "\<lparr>version = 1, sv_capabilities = {''chat.completions''}, sv_roles = {},
    last_updated = 10,
    checksum = \<lparr>scope_capabilities = {''chat.completions''}, scope_roles = {}\<rparr>\<rparr>"
  have row: "scope_versions ?base (''u'', Some ''t'') = Some ?row"
    by (simp add: scenario_defs)
  have none: "scope_versions (initial_store :: scope store) (''u'', Some ''t'') = None"
    by (simp add: initial_store_def)
  have split: "take 3 scenario_calls @ drop 3 scenario_calls = scenario_calls"
    by simp
  show ?thesis
    using row none
      recompute_version_monotonic [where st = ?base and digest = "\<lambda>sc. sc"
        and cs = "[]" and cs' = "[]" and k = "(''u'', Some ''t'')" and u = "''u''"
        and t = "Some ''t''" and row = ?row and snapshot = chat_and_embeddings
        and now = 20]
      recompute_version_monotonic [where st = ?base and digest = "\<lambda>sc. sc"
        and cs = "[]" and cs' = "[]" and k = "(''u'', Some ''t'')" and u = "''u''"
        and t = "Some ''t''" and row = ?row and snapshot = chat_only and now = 20]
      recompute_version_monotonic [where st = "initial_store :: scope store"
        and digest = "\<lambda>sc. sc" and cs = "take 3 scenario_calls"
        and cs' = "drop 3 scenario_calls" and k = "(''u'', Some ''t'')" and u = "''u''"
        and t = "Some ''t''" and snapshot = chat_only and now = 10]
    unfolding split
    by (simp add: chat_only_def chat_and_embeddings_def)
qed

text \<open>
  C5: for a session whose record captured version V, when a row for the session's
  principal is stored, \<^verbatim>\<open>validate\<close> reports STALE if the stored version is greater than
  V, and OK if it equals V.
\<close>

theorem validate_stale_or_ok:
  "session_scope_records st sid = Some r \<Longrightarrow>
   scope_versions st (sess_user_id r, sess_tenant_id r) = Some row \<Longrightarrow>
   (scope_version_at_issue r < version row \<longrightarrow>
      (\<exists>grace_remaining. validate cfg now st sid = STALE grace_remaining)) \<and>
   (version row = scope_version_at_issue r \<longrightarrow> validate cfg now st sid = OK)"
  by (simp add: validate_def)

theorem validate_stale_or_ok_witness:
  "(\<exists>grace_remaining.
      validate \<lparr>grace_period = 300, fail_open_on_lookup_error = False\<rparr> 25
        (run (\<lambda>sc. sc) (take 3 scenario_calls) initial_store) ''s1'' =
      STALE grace_remaining) \<and>
   validate \<lparr>grace_period = 300, fail_open_on_lookup_error = False\<rparr> 25
     (run (\<lambda>sc. sc) (take 2 scenario_calls) initial_store) ''s1'' = OK"
proof -
  let ?r = "\<lparr>sess_user_id = ''u'', sess_tenant_id = Some ''t'', scope_version_at_issue = 1,
    issued_at = 10, last_validated_at = 10\<rparr>"
  let ?row1 = "\<lparr>version = 1, sv_capabilities = {''chat.completions''}, sv_roles = {},
    last_updated = 10,
    checksum = \<lparr>scope_capabilities = {''chat.completions''}, scope_roles = {}\<rparr>\<rparr>"
  let ?row2 = "\<lparr>version = 2, sv_capabilities = {''chat.completions'', ''embeddings''},
    sv_roles = {}, last_updated = 20,
    checksum = \<lparr>scope_capabilities = {''chat.completions'', ''embeddings''},
      scope_roles = {}\<rparr>\<rparr>"
  let ?st2 = "run (\<lambda>sc. sc) (take 2 scenario_calls) initial_store"
  let ?st3 = "run (\<lambda>sc. sc) (take 3 scenario_calls) initial_store"
  have r2: "session_scope_records ?st2 ''s1'' = Some ?r"
    and v2: "scope_versions ?st2 (sess_user_id ?r, sess_tenant_id ?r) = Some ?row1"
    and r3: "session_scope_records ?st3 ''s1'' = Some ?r"
    and v3: "scope_versions ?st3 (sess_user_id ?r, sess_tenant_id ?r) = Some ?row2"
    by (simp_all add: scenario_defs)
  from validate_stale_or_ok [OF r3 v3] validate_stale_or_ok [OF r2 v2]
  show ?thesis by simp
qed

text \<open>
  C6: a second \<^verbatim>\<open>recompute\<close> of a principal whose resolved capabilities and roles are
  those of the first call changes nothing: the version is the one after the first call
  and no event is appended.
\<close>

theorem recompute_idempotent:
  "snapshot' (u, t) = snapshot (u, t) \<Longrightarrow>
   get_version (recompute digest snapshot' now' u t (recompute digest snapshot now u t st))
       u t =
     get_version (recompute digest snapshot now u t st) u t \<and>
   scope_change_events
       (recompute digest snapshot' now' u t (recompute digest snapshot now u t st)) =
     scope_change_events (recompute digest snapshot now u t st) \<and>
   recompute digest snapshot' now' u t (recompute digest snapshot now u t st) =
     recompute digest snapshot now u t st"
  by (simp add: recompute_idem)

theorem recompute_idempotent_witness:
  "get_version (run (\<lambda>sc. sc) (take 4 scenario_calls) initial_store) ''u'' (Some ''t'') =
     Inr 2 \<and>
   get_version (run (\<lambda>sc. sc) (take 3 scenario_calls) initial_store) ''u'' (Some ''t'') =
     Inr 2 \<and>
   length (scope_change_events (run (\<lambda>sc. sc) (take 4 scenario_calls) initial_store)) = 1"
proof -
  let ?st2 = "run (\<lambda>sc. sc) (take 2 scenario_calls) initial_store"
  have same: "chat_and_embeddings (''u'', Some ''t'') = chat_and_embeddings (''u'', Some ''t'')"
    by simp
  have step: "run (\<lambda>sc. sc) (take 4 scenario_calls) initial_store =
      recompute (\<lambda>sc. sc) chat_and_embeddings 21 ''u'' (Some ''t'')
        (recompute (\<lambda>sc. sc) chat_and_embeddings 20 ''u'' (Some ''t'') ?st2)"
    and step3: "run (\<lambda>sc. sc) (take 3 scenario_calls) initial_store =
      recompute (\<lambda>sc. sc) chat_and_embeddings 20 ''u'' (Some ''t'') ?st2"
    by (simp_all add: scenario_calls_def)
  have v3: "get_version (recompute (\<lambda>sc. sc) chat_and_embeddings 20 ''u'' (Some ''t'') ?st2)
      ''u'' (Some ''t'') = Inr 2"
    and e3: "length (scope_change_events
      (recompute (\<lambda>sc. sc) chat_and_embeddings 20 ''u'' (Some ''t'') ?st2)) = 1"
    by (simp_all add: scenario_defs)
  from recompute_idempotent [where snapshot' = chat_and_embeddings
      and snapshot = chat_and_embeddings and u = "''u''" and t = "Some ''t''"
      and digest = "\<lambda>sc. sc" and now' = 21 and now = 20 and st = ?st2, OF same] v3 e3
  show ?thesis
    unfolding step step3 by simp
qed

text \<open>
  C7: in every store reached from the empty one by a sequence of calls, the events of a
  principal form a gapless ordered stream: every event goes from its old version to the
  next one, and every event starts at the version the event before it reached.
\<close>

theorem events_gapless:
  "gapless (events_for k (run digest cs initial_store)) \<and>
   (\<forall>i < length (events_for k (run digest cs initial_store)).
      new_version (events_for k (run digest cs initial_store) ! i) =
      old_version (events_for k (run digest cs initial_store) ! i) + 1) \<and>
   (\<forall>i. Suc i < length (events_for k (run digest cs initial_store)) \<longrightarrow>
      new_version (events_for k (run digest cs initial_store) ! i) =
      old_version (events_for k (run digest cs initial_store) ! Suc i))"
proof (intro conjI allI impI)
  show g: "gapless (events_for k (run digest cs initial_store))"
    by (rule gapless_run)
  fix i
  assume "i < length (events_for k (run digest cs initial_store))"
  with g show "new_version (events_for k (run digest cs initial_store) ! i) =
      old_version (events_for k (run digest cs initial_store) ! i) + 1"
    by (rule gapless_step)
next
  fix i
  assume "Suc i < length (events_for k (run digest cs initial_store))"
  with gapless_run show "new_version (events_for k (run digest cs initial_store) ! i) =
      old_version (events_for k (run digest cs initial_store) ! Suc i)"
    by (rule gapless_link)
qed

theorem events_gapless_witness:
  "length (events_for (''u'', Some ''t'') (run (\<lambda>sc. sc) scenario_calls initial_store)) = 2 \<and>
   length (scope_change_events (run (\<lambda>sc. sc) scenario_calls initial_store)) = 3 \<and>
   new_version (events_for (''u'', Some ''t'')
       (run (\<lambda>sc. sc) scenario_calls initial_store) ! 0) =
     old_version (events_for (''u'', Some ''t'')
       (run (\<lambda>sc. sc) scenario_calls initial_store) ! 0) + 1 \<and>
   new_version (events_for (''u'', Some ''t'')
       (run (\<lambda>sc. sc) scenario_calls initial_store) ! 0) =
     old_version (events_for (''u'', Some ''t'')
       (run (\<lambda>sc. sc) scenario_calls initial_store) ! Suc 0)"
proof -
  let ?es = "events_for (''u'', Some ''t'') (run (\<lambda>sc. sc) scenario_calls initial_store)"
  have len: "length ?es = 2"
    and all: "length (scope_change_events
      (run (\<lambda>sc. sc) scenario_calls initial_store)) = 3"
    by (simp_all add: scenario_defs)
  from events_gapless [of "(''u'', Some ''t'')" "\<lambda>sc. sc" scenario_calls]
  have "\<forall>i < length ?es. new_version (?es ! i) = old_version (?es ! i) + 1"
    and "\<forall>i. Suc i < length ?es \<longrightarrow> new_version (?es ! i) = old_version (?es ! Suc i)"
    by blast+
  with len all show ?thesis by simp
qed

end
